theory Spec2Isabelle
  imports Complex_Main "HOL-Library.Word" "HOL-Library.Sublist"
begin

section \<open>JavaScript strings\<close>

text \<open>
  A JavaScript string is a sequence of UTF-16 code units. The regular expressions of
  \<^verbatim>\<open>assistant_chat.js\<close> carry no \<^verbatim>\<open>u\<close> flag, so they work code unit by code
  unit, and so does \<^verbatim>\<open>String.prototype.trim\<close>.
\<close>

type_synonym jschar = "16 word"
type_synonym jsstring = "jschar list"

text \<open>The code units of an ASCII literal of the source.\<close>

definition js :: "string \<Rightarrow> jsstring" where
  "js s = map of_char s"

definition LF :: jschar where
  "LF = 0x0A"

text \<open>
  ECMAScript \<^verbatim>\<open>LineTerminator\<close>: LF, CR, LINE SEPARATOR, PARAGRAPH SEPARATOR. The
  pattern character \<^verbatim>\<open>.\<close> matches every code unit but these.
\<close>

definition is_line_terminator :: "jschar \<Rightarrow> bool" where
  "is_line_terminator c = (c = 0x0A \<or> c = 0x0D \<or> c = 0x2028 \<or> c = 0x2029)"

text \<open>
  ECMAScript \<^verbatim>\<open>WhiteSpace\<close> (TAB, VT, FF, ZWNBSP and the Unicode category Zs) together
  with \<^verbatim>\<open>LineTerminator\<close>: what \<^verbatim>\<open>trim\<close> strips.
\<close>

definition is_white_space :: "jschar \<Rightarrow> bool" where
  "is_white_space c =
     (c = 0x09 \<or> c = 0x0B \<or> c = 0x0C \<or> c = 0xFEFF \<or> c = 0x20 \<or> c = 0xA0 \<or>
      c = 0x1680 \<or> (0x2000 \<le> c \<and> c \<le> 0x200A) \<or> c = 0x202F \<or> c = 0x205F \<or>
      c = 0x3000 \<or> is_line_terminator c)"

definition trim :: "jsstring \<Rightarrow> jsstring" where
  "trim s = rev (dropWhile is_white_space (rev (dropWhile is_white_space s)))"

text \<open>\<^verbatim>\<open>s.startsWith(p)\<close> and \<^verbatim>\<open>s.includes(p)\<close>.\<close>

definition starts_with :: "jsstring \<Rightarrow> jsstring \<Rightarrow> bool" where
  "starts_with s p = prefix p s"

definition includes_str :: "jsstring \<Rightarrow> jsstring \<Rightarrow> bool" where
  "includes_str s p = sublist p s"

section \<open>Global replacement by a regular expression\<close>

text \<open>
  \<^verbatim>\<open>s.replace(/re/g, template)\<close>. A matcher stands for the regular expression anchored
  at the start of its argument: it returns the number of code units of the match and the
  text of capture group 1, or \<open>None\<close>. The scan goes from left to right; where the
  expression matches, the instantiated template is emitted and the scan goes on behind the
  match; elsewhere the code unit is copied. After an empty match the scan advances by one
  code unit, which is copied.
\<close>

type_synonym matcher = "jsstring \<Rightarrow> (nat \<times> jsstring) option"

function replace_g :: "matcher \<Rightarrow> (jsstring \<Rightarrow> jsstring) \<Rightarrow> jsstring \<Rightarrow> jsstring" where
  "replace_g m t [] = (case m [] of None \<Rightarrow> [] | Some (n, g) \<Rightarrow> t g)"
| "replace_g m t (c # cs) =
     (case m (c # cs) of
        None \<Rightarrow> c # replace_g m t cs
      | Some (n, g) \<Rightarrow>
          t g @ (if n = 0 then c # replace_g m t cs else replace_g m t (drop (n - 1) cs)))"
  by pat_completeness auto
termination
  by (relation "measure (\<lambda>(m, t, s). length s)") auto

subsection \<open>The three expressions of \<^verbatim>\<open>formatText\<close>\<close>

text \<open>
  \<^verbatim>\<open>/\* (.+)/\<close> at the start of the argument: an asterisk, a space, then the longest
  run of code units that are no line terminators, which must not be empty. Nothing follows
  the greedy group, so the longest run is the match.
\<close>

definition star_item :: matcher where
  "star_item s =
     (case s of
        a # b # rest \<Rightarrow>
          if a = 0x2A \<and> b = 0x20 then
            (let g = takeWhile (\<lambda>c. \<not> is_line_terminator c) rest
             in if g = [] then None else Some (2 + length g, g))
          else None
      | _ \<Rightarrow> None)"

text \<open>
  \<^verbatim>\<open>/\n?\* (.+)/\<close>: the optional newline is greedy, so the branch that consumes a
  leading LF is tried first and the branch that consumes nothing second.
\<close>

definition list_item :: matcher where
  "list_item s =
     (case s of
        c # cs \<Rightarrow>
          if c = LF then
            (case star_item cs of
               Some (n, g) \<Rightarrow> Some (Suc n, g)
             | None \<Rightarrow> star_item s)
          else star_item s
      | [] \<Rightarrow> star_item s)"

text \<open>\<^verbatim>\<open>/(Answer:|Response:)/\<close>: the alternatives in their order.\<close>

definition answer_token :: matcher where
  "answer_token s =
     (if starts_with s (js ''Answer:'') then Some (7, js ''Answer:'')
      else if starts_with s (js ''Response:'') then Some (9, js ''Response:'')
      else None)"

text \<open>\<^verbatim>\<open>/\n{2,}/\<close>: the longest run of LF, of length two at least; no group.\<close>

definition newlines :: matcher where
  "newlines s =
     (let n = length (takeWhile (\<lambda>c. c = LF) s)
      in if 2 \<le> n then Some (n, []) else None)"

section \<open>\<^verbatim>\<open>formatText\<close>\<close>

definition formatText :: "jsstring \<Rightarrow> jsstring" where
  "formatText text =
     (let html =
        replace_g newlines (\<lambda>g. js ''</ul><br><ul>'')
          (replace_g answer_token (\<lambda>g. js ''<strong>'' @ g @ js ''</strong>'')
            (replace_g list_item (\<lambda>g. js ''<li>'' @ g @ js ''</li>'') text))
      in if includes_str html (js ''<li>'') then js ''<ul>'' @ html @ js ''</ul>'' else html)"

section \<open>Values returned by the chat endpoint\<close>

text \<open>
  What \<^verbatim>\<open>res.json()\<close> resolves to: a parsed JSON value. An object is kept as the list
  of its own properties, each key once; numbers are kept by their value, of which this code
  observes only whether it is zero.
\<close>

datatype jsval =
    JNull
  | JBool bool
  | JNum real
  | JStr jsstring
  | JArr "jsval list"
  | JObj "(jsstring \<times> jsval) list"

datatype exn = TypeError | NetworkError | SyntaxError

text \<open>
  \<^verbatim>\<open>data.answer\<close>: reading a property of \<^verbatim>\<open>null\<close> throws; an object yields its own
  property or \<^verbatim>\<open>undefined\<close> (\<open>None\<close>); the other values have no such property.
\<close>

definition get_answer :: "jsval \<Rightarrow> exn + jsval option" where
  "get_answer data =
     (case data of
        JNull \<Rightarrow> Inl TypeError
      | JObj kvs \<Rightarrow> Inr (map_of kvs (js ''answer''))
      | _ \<Rightarrow> Inr None)"

text \<open>\<^verbatim>\<open>ToBoolean\<close> on a parsed JSON value.\<close>

definition truthy :: "jsval \<Rightarrow> bool" where
  "truthy v =
     (case v of
        JNull \<Rightarrow> False
      | JBool b \<Rightarrow> b
      | JNum n \<Rightarrow> n \<noteq> 0
      | JStr s \<Rightarrow> s \<noteq> []
      | JArr _ \<Rightarrow> True
      | JObj _ \<Rightarrow> True)"

text \<open>\<^verbatim>\<open>a || d\<close>, where \<open>a\<close> may be \<^verbatim>\<open>undefined\<close>.\<close>

definition or_else :: "jsval option \<Rightarrow> jsval \<Rightarrow> jsval" where
  "or_else a d = (case a of None \<Rightarrow> d | Some v \<Rightarrow> if truthy v then v else d)"

section \<open>The page and the widget\<close>

datatype origin = User | Bot

text \<open>
  A rendered message: the \<^verbatim>\<open>div\<close> of class \<^verbatim>\<open>assistant-msg user\<close> or
  \<^verbatim>\<open>assistant-msg bot\<close>, and the string assigned to its \<^verbatim>\<open>innerHTML\<close>.
\<close>

record message =
  origin :: origin
  innerHTML :: jsstring

text \<open>
  The arguments of a call of \<^verbatim>\<open>fetch\<close>. A header value is a string or \<^verbatim>\<open>null\<close>
  (\<open>None\<close>). \<open>JSON_message text\<close> stands for \<^verbatim>\<open>JSON.stringify({ message: text })\<close>.
\<close>

datatype payload = NoBody | JSON_message jsstring

record request =
  url :: string
  http_method :: string
  headers :: "(string \<times> jsstring option) list"
  credentials :: string
  body :: payload

text \<open>What the widget does to the outside, in the order in which it does it.\<close>

datatype effect =
    AppendChild message
  | Fetch request
  | ConsoleWarn
  | ConsoleLog

text \<open>
  The state the handlers read and write. \<open>csrf_meta\<close> is what
  \<^verbatim>\<open>document.querySelector('meta[name="csrf-token"]')\<close> finds: \<open>None\<close> when the page
  has no such element, otherwise the value of its \<^verbatim>\<open>content\<close> attribute (\<open>None\<close>
  when the attribute is missing, as \<^verbatim>\<open>getAttribute\<close> returns \<^verbatim>\<open>null\<close>).
  \<open>is_open\<close> says whether \<^verbatim>\<open>chatBox\<close> has the class \<^verbatim>\<open>open\<close>.
\<close>

record page =
  csrf_meta :: "jsstring option option"
  is_open :: bool
  reindexed :: bool
  input_value :: jsstring
  effects :: "effect list"

definition init :: "jsstring option option \<Rightarrow> page" where
  "init m = \<lparr>csrf_meta = m, is_open = False, reindexed = False, input_value = [],
     effects = []\<rparr>"

definition emit :: "effect \<Rightarrow> page \<Rightarrow> page" where
  "emit e p = p\<lparr>effects := effects p @ [e]\<rparr>"

text \<open>The children of \<^verbatim>\<open>#assistant-messages\<close> and the calls of \<^verbatim>\<open>fetch\<close>.\<close>

fun appended :: "effect list \<Rightarrow> message list" where
  "appended [] = []"
| "appended (AppendChild m # es) = m # appended es"
| "appended (e # es) = appended es"

fun fetched :: "effect list \<Rightarrow> request list" where
  "fetched [] = []"
| "fetched (Fetch r # es) = r # fetched es"
| "fetched (e # es) = fetched es"

definition messages :: "page \<Rightarrow> message list" where
  "messages p = appended (effects p)"

definition requests :: "page \<Rightarrow> request list" where
  "requests p = fetched (effects p)"

subsection \<open>\<^verbatim>\<open>appendMessage\<close> and \<^verbatim>\<open>getCsrf\<close>\<close>

definition appendMessage :: "jsstring \<Rightarrow> origin \<Rightarrow> page \<Rightarrow> page" where
  "appendMessage text from p =
     emit (AppendChild \<lparr>origin = from, innerHTML = formatText text\<rparr>) p"

text \<open>
  \<^verbatim>\<open>appendMessage\<close> on a value that need not be a string: \<^verbatim>\<open>formatText\<close> calls
  \<^verbatim>\<open>text.replace\<close>, which only a string has, so any other value throws before the
  element is appended.
\<close>

definition appendMessage_any :: "jsval \<Rightarrow> origin \<Rightarrow> page \<Rightarrow> exn + page" where
  "appendMessage_any v from p =
     (case v of JStr s \<Rightarrow> Inr (appendMessage s from p) | _ \<Rightarrow> Inl TypeError)"

definition getCsrf :: "page \<Rightarrow> jsstring option" where
  "getCsrf p = (case csrf_meta p of Some content \<Rightarrow> content | None \<Rightarrow> Some [])"

subsection \<open>Opening and closing\<close>

text \<open>
  \<^verbatim>\<open>triggerReindex\<close> up to its \<^verbatim>\<open>await\<close>, and what runs when the request settles:
  a rejection is caught and logged.
\<close>

definition triggerReindex :: "page \<Rightarrow> page" where
  "triggerReindex p =
     emit (Fetch \<lparr>url = ''/assistant/reindex'', http_method = ''POST'',
       headers = [(''X-CSRFToken'', getCsrf p)], credentials = ''same-origin'',
       body = NoBody\<rparr>) p"

definition reindex_settled :: "bool \<Rightarrow> page \<Rightarrow> page" where
  "reindex_settled rejected p = (if rejected then emit ConsoleWarn p else p)"

definition toggle :: "page \<Rightarrow> page" where
  "toggle p =
     (let p1 = p\<lparr>is_open := \<not> is_open p\<rparr>;
          opened = is_open p1
      in if opened \<and> \<not> reindexed p1 then triggerReindex (p1\<lparr>reindexed := True\<rparr>) else p1)"

definition close :: "page \<Rightarrow> page" where
  "close p = p\<lparr>is_open := False\<rparr>"

subsection \<open>Submitting\<close>

text \<open>The \<^verbatim>\<open>catch\<close> block of the submit handler.\<close>

definition chat_catch :: "page \<Rightarrow> page" where
  "chat_catch p = appendMessage (js ''Error contacting assistant.'') Bot (emit ConsoleLog p)"

text \<open>
  The \<^verbatim>\<open>try\<close> block up to its first \<^verbatim>\<open>await\<close>: the token is read from the element
  found by \<^verbatim>\<open>querySelector\<close>, without a check for \<^verbatim>\<open>null\<close>, then \<^verbatim>\<open>fetch\<close> is
  called.
\<close>

definition chat_request :: "jsstring \<Rightarrow> page \<Rightarrow> exn + page" where
  "chat_request text p =
     (case csrf_meta p of
        None \<Rightarrow> Inl TypeError
      | Some csrf \<Rightarrow>
          Inr (emit (Fetch \<lparr>url = ''/assistant/chat'', http_method = ''POST'',
            headers = [(''Content-Type'', Some (js ''application/json'')),
                       (''X-CSRFToken'', csrf)],
            credentials = ''same-origin'', body = JSON_message text\<rparr>) p))"

text \<open>The submit handler up to its first \<^verbatim>\<open>await\<close>.\<close>

definition submit :: "page \<Rightarrow> page" where
  "submit p =
     (let text = trim (input_value p)
      in if text = [] then p
         else
           (let p1 = appendMessage text User p;
                p2 = p1\<lparr>input_value := []\<rparr>
            in case chat_request text p2 of
                 Inl e \<Rightarrow> chat_catch p2
               | Inr p3 \<Rightarrow> p3))"

text \<open>
  How the exchange ends: \<^verbatim>\<open>fetch\<close> rejects, or \<^verbatim>\<open>res.json()\<close> rejects, or the body
  parses to a value.
\<close>

datatype outcome = Rejected | NotJson | Parsed jsval

text \<open>The rest of the \<^verbatim>\<open>try\<close> block, behind the two \<^verbatim>\<open>await\<close>s.\<close>

definition chat_try :: "outcome \<Rightarrow> page \<Rightarrow> exn + page" where
  "chat_try out p =
     (case out of
        Rejected \<Rightarrow> Inl NetworkError
      | NotJson \<Rightarrow> Inl SyntaxError
      | Parsed data \<Rightarrow>
          (case get_answer data of
             Inl e \<Rightarrow> Inl e
           | Inr a \<Rightarrow>
               appendMessage_any
                 (or_else a (JStr (js ''Sorry, I had trouble answering.''))) Bot p))"

definition chat_settled :: "outcome \<Rightarrow> page \<Rightarrow> page" where
  "chat_settled out p = (case chat_try out p of Inl e \<Rightarrow> chat_catch p | Inr p' \<Rightarrow> p')"

subsection \<open>The life of a page\<close>

text \<open>
  The events that reach the widget: the clicks on the two buttons, the user editing the
  input, the form being submitted, a request settling, and the page changing its meta
  element. Every handler runs to its next \<^verbatim>\<open>await\<close> before the next event is taken.
\<close>

datatype event =
    Toggle
  | Close
  | Typed jsstring
  | Submit
  | ChatSettled outcome
  | ReindexSettled bool
  | MetaChanged "jsstring option option"

fun step :: "event \<Rightarrow> page \<Rightarrow> page" where
  "step Toggle p = toggle p"
| "step Close p = close p"
| "step (Typed s) p = p\<lparr>input_value := s\<rparr>"
| "step Submit p = submit p"
| "step (ChatSettled out) p = chat_settled out p"
| "step (ReindexSettled rejected) p = reindex_settled rejected p"
| "step (MetaChanged m) p = p\<lparr>csrf_meta := m\<rparr>"

definition run :: "event list \<Rightarrow> page \<Rightarrow> page" where
  "run evs p = fold step evs p"

definition is_reindex :: "request \<Rightarrow> bool" where
  "is_reindex r = (url r = ''/assistant/reindex'')"

definition reindex_requests :: "page \<Rightarrow> request list" where
  "reindex_requests p = filter is_reindex (requests p)"

text \<open>
  What ties the flag to the log: an open panel has asked for the reindex, and the flag is
  set exactly when one reindex request has been issued.
\<close>

definition reindex_inv :: "page \<Rightarrow> bool" where
  "reindex_inv p \<longleftrightarrow>
     (is_open p \<longrightarrow> reindexed p) \<and>
     length (reindex_requests p) = (if reindexed p then 1 else 0)"

subsection \<open>Notions for the analysis of \<^verbatim>\<open>formatText\<close>\<close>

text \<open>
  A matcher that consumes at least one code unit where it matches, and no more than there
  are: the three matchers of \<^verbatim>\<open>formatText\<close> are such.
\<close>

definition well_formed :: "matcher \<Rightarrow> bool" where
  "well_formed m \<longleftrightarrow> (\<forall>s n g. m s = Some (n, g) \<longrightarrow> 0 < n \<and> n \<le> length s)"

text \<open>The number of occurrences of the letter g.\<close>

definition count_g :: "jsstring \<Rightarrow> nat" where
  "count_g s = length (filter (\<lambda>c. c = 0x67) s)"

text \<open>A text without asterisk, space and line terminator.\<close>

definition plain :: "jsstring \<Rightarrow> bool" where
  "plain p \<longleftrightarrow> (\<forall>x\<in>set p. x \<noteq> 0x2A \<and> x \<noteq> 0x20 \<and> \<not> is_line_terminator x)"

section \<open>Properties\<close>

subsection \<open>Auxiliary facts\<close>

lemmas format_defs = formatText_def js_def list_item_def star_item_def answer_token_def
  newlines_def starts_with_def includes_str_def sublist_code is_line_terminator_def LF_def

lemma js_eq_Nil [simp]: "js s = [] \<longleftrightarrow> s = []"
  by (simp add: js_def)

lemma init_sel [simp]:
  "csrf_meta (init m) = m" "is_open (init m) = False" "reindexed (init m) = False"
  "input_value (init m) = []" "effects (init m) = []"
  by (simp_all add: init_def)

lemma formatText_fallback:
  "formatText (js ''Sorry, I had trouble answering.'') = js ''Sorry, I had trouble answering.''"
  by (simp add: format_defs)

lemma formatText_error:
  "formatText (js ''Error contacting assistant.'') = js ''Error contacting assistant.''"
  by (simp add: format_defs)

lemma appended_append: "appended (xs @ ys) = appended xs @ appended ys"
  by (induction xs rule: appended.induct) simp_all

lemma fetched_append: "fetched (xs @ ys) = fetched xs @ fetched ys"
  by (induction xs rule: fetched.induct) simp_all

lemma effects_emit: "effects (emit e p) = effects p @ [e]"
  by (simp add: emit_def)

lemma effects_appendMessage:
  "effects (appendMessage text from p) =
     effects p @ [AppendChild \<lparr>origin = from, innerHTML = formatText text\<rparr>]"
  by (simp add: appendMessage_def emit_def)

lemma effects_chat_catch:
  "effects (chat_catch p) =
     effects p @
       [ConsoleLog,
        AppendChild \<lparr>origin = Bot, innerHTML = js ''Error contacting assistant.''\<rparr>]"
  by (simp add: chat_catch_def effects_appendMessage effects_emit formatText_error)

lemma trim_white_space:
  assumes "\<forall>c\<in>set s. is_white_space c"
  shows "trim s = []"
proof -
  from assms have front: "dropWhile is_white_space s = []"
    by simp
  show ?thesis
    unfolding trim_def front by simp
qed

lemma effects_submit:
  assumes "trim (input_value p) \<noteq> []"
  shows "effects (submit p) =
     effects p @
       AppendChild \<lparr>origin = User, innerHTML = formatText (trim (input_value p))\<rparr> #
       (case csrf_meta p of
          None \<Rightarrow>
            [ConsoleLog,
             AppendChild \<lparr>origin = Bot, innerHTML = js ''Error contacting assistant.''\<rparr>]
        | Some csrf \<Rightarrow>
            [Fetch \<lparr>url = ''/assistant/chat'', http_method = ''POST'',
               headers = [(''Content-Type'', Some (js ''application/json'')),
                          (''X-CSRFToken'', csrf)],
               credentials = ''same-origin'',
               body = JSON_message (trim (input_value p))\<rparr>])"
  using assms
  by (simp add: submit_def chat_request_def Let_def effects_chat_catch appendMessage_def
      emit_def split: option.splits)

text \<open>The three ways in which the settled exchange can end.\<close>

lemma chat_settled_raised:
  assumes "chat_try out q = Inl e"
  shows "effects (chat_settled out q) =
     effects q @
       [ConsoleLog,
        AppendChild \<lparr>origin = Bot, innerHTML = js ''Error contacting assistant.''\<rparr>]"
  using assms by (simp add: chat_settled_def effects_chat_catch)

lemma chat_settled_fallback:
  assumes "get_answer data = Inr a" and "a = None \<or> (\<exists>v. a = Some v \<and> \<not> truthy v)"
  shows "effects (chat_settled (Parsed data) q) =
     effects q @
       [AppendChild \<lparr>origin = Bot, innerHTML = js ''Sorry, I had trouble answering.''\<rparr>]"
  using assms
  by (auto simp: chat_settled_def chat_try_def or_else_def appendMessage_any_def
      effects_appendMessage formatText_fallback)

lemma chat_settled_answer:
  assumes "get_answer data = Inr (Some (JStr s))" and "s \<noteq> []"
  shows "effects (chat_settled (Parsed data) q) =
     effects q @ [AppendChild \<lparr>origin = Bot, innerHTML = formatText s\<rparr>]"
  using assms
  by (simp add: chat_settled_def chat_try_def or_else_def truthy_def appendMessage_any_def
      effects_appendMessage)

lemma chat_try_effects:
  assumes "chat_try out q = Inr q'"
  shows "\<exists>s. effects q' = effects q @ [AppendChild \<lparr>origin = Bot, innerHTML = s\<rparr>]"
  using assms
  by (auto simp: chat_try_def appendMessage_any_def effects_appendMessage
      split: outcome.splits sum.splits jsval.splits)

lemma chat_settled_user_messages:
  "filter (\<lambda>m. origin m = User) (messages (chat_settled out q)) =
     filter (\<lambda>m. origin m = User) (messages q)"
proof (cases "chat_try out q")
  case (Inl e)
  then show ?thesis
    by (simp add: messages_def chat_settled_raised appended_append)
next
  case (Inr q')
  from chat_try_effects [OF Inr] obtain s
    where "effects q' = effects q @ [AppendChild \<lparr>origin = Bot, innerHTML = s\<rparr>]" ..
  with Inr show ?thesis
    by (simp add: messages_def chat_settled_def appended_append)
qed

text \<open>The exceptions that the code behind the \<^verbatim>\<open>await\<close>s can meet.\<close>

lemma chat_try_raises:
  "(\<exists>e. chat_try out q = Inl e) \<longleftrightarrow>
     out = Rejected \<or> out = NotJson \<or> out = Parsed JNull \<or>
     (\<exists>kvs v. out = Parsed (JObj kvs) \<and> map_of kvs (js ''answer'') = Some v \<and> truthy v \<and>
        (\<forall>s. v \<noteq> JStr s))"
  by (auto simp: chat_try_def get_answer_def or_else_def appendMessage_any_def
      split: outcome.splits jsval.splits option.splits if_splits)

subsection \<open>Runs of events\<close>

lemma run_snoc: "run (evs @ [e]) p = step e (run evs p)"
  by (simp add: run_def)

lemma run_append: "run (xs @ ys) p = run ys (run xs p)"
  by (simp add: run_def)

lemma reindex_requests_extend:
  "effects p' = effects p @ es \<Longrightarrow>
     reindex_requests p' = reindex_requests p @ filter is_reindex (fetched es)"
  by (simp add: reindex_requests_def requests_def fetched_append)

lemma toggle_cases:
  "toggle p =
     (if \<not> is_open p \<and> \<not> reindexed p
      then emit (Fetch \<lparr>url = ''/assistant/reindex'', http_method = ''POST'',
             headers = [(''X-CSRFToken'', getCsrf p)], credentials = ''same-origin'',
             body = NoBody\<rparr>) (p\<lparr>is_open := True, reindexed := True\<rparr>)
      else p\<lparr>is_open := \<not> is_open p\<rparr>)"
  by (simp add: toggle_def Let_def triggerReindex_def getCsrf_def)

lemma effects_toggle:
  "effects (toggle p) =
     effects p @
       (if \<not> is_open p \<and> \<not> reindexed p
        then [Fetch \<lparr>url = ''/assistant/reindex'', http_method = ''POST'',
               headers = [(''X-CSRFToken'', getCsrf p)], credentials = ''same-origin'',
               body = NoBody\<rparr>]
        else [])"
  by (simp add: toggle_cases emit_def)

lemma reindex_requests_submit: "reindex_requests (submit p) = reindex_requests p"
proof (cases "trim (input_value p) = []")
  case True
  then show ?thesis by (simp add: submit_def)
next
  case False
  then show ?thesis
    by (cases "csrf_meta p")
      (simp_all add: reindex_requests_def requests_def effects_submit fetched_append is_reindex_def)
qed

lemma reindex_requests_chat_settled:
  "reindex_requests (chat_settled out p) = reindex_requests p"
proof (cases "chat_try out p")
  case (Inl e)
  then show ?thesis
    by (simp add: reindex_requests_def requests_def chat_settled_raised fetched_append)
next
  case (Inr p')
  from chat_try_effects [OF Inr] obtain s
    where "effects p' = effects p @ [AppendChild \<lparr>origin = Bot, innerHTML = s\<rparr>]" ..
  with Inr show ?thesis
    by (simp add: reindex_requests_def requests_def chat_settled_def fetched_append)
qed

lemma reindex_requests_toggle:
  "reindex_requests (toggle p) =
     (if \<not> is_open p \<and> \<not> reindexed p
      then reindex_requests p @
        [\<lparr>url = ''/assistant/reindex'', http_method = ''POST'',
          headers = [(''X-CSRFToken'', getCsrf p)], credentials = ''same-origin'',
          body = NoBody\<rparr>]
      else reindex_requests p)"
  by (simp add: reindex_requests_extend [OF effects_toggle] is_reindex_def)

lemma reindex_requests_step:
  "reindex_requests (step e p) =
     (if e = Toggle \<and> \<not> is_open p \<and> \<not> reindexed p
      then reindex_requests p @
        [\<lparr>url = ''/assistant/reindex'', http_method = ''POST'',
          headers = [(''X-CSRFToken'', getCsrf p)], credentials = ''same-origin'',
          body = NoBody\<rparr>]
      else reindex_requests p)"
proof (cases e)
  case Toggle
  then show ?thesis by (simp add: reindex_requests_toggle)
next
  case Submit
  then show ?thesis by (simp add: reindex_requests_submit)
next
  case (ChatSettled out)
  then show ?thesis by (simp add: reindex_requests_chat_settled)
next
  case (ReindexSettled rejected)
  then show ?thesis
    by (simp add: reindex_settled_def reindex_requests_extend [OF effects_emit])
qed (simp_all add: close_def reindex_requests_def requests_def)

lemma flags_submit: "is_open (submit p) = is_open p \<and> reindexed (submit p) = reindexed p"
  by (simp add: submit_def Let_def chat_request_def chat_catch_def appendMessage_def emit_def
      split: option.splits)

lemma flags_chat_settled:
  "is_open (chat_settled out p) = is_open p \<and> reindexed (chat_settled out p) = reindexed p"
  by (auto simp: chat_settled_def chat_try_def chat_catch_def appendMessage_any_def
      appendMessage_def emit_def split: outcome.splits sum.splits jsval.splits)

lemma reindexed_step:
  "reindexed (step e p) = (reindexed p \<or> (e = Toggle \<and> \<not> is_open p))"
  by (cases e)
    (auto simp: toggle_cases emit_def close_def reindex_settled_def
      flags_submit flags_chat_settled)

lemma is_open_step:
  "is_open (step e p) = (if e = Toggle then \<not> is_open p else if e = Close then False else is_open p)"
  by (cases e)
    (auto simp: toggle_cases emit_def close_def reindex_settled_def
      flags_submit flags_chat_settled)

lemma reindex_inv_init: "reindex_inv (init m)"
  by (simp add: reindex_inv_def init_def reindex_requests_def requests_def)

lemma reindex_inv_step: "reindex_inv p \<Longrightarrow> reindex_inv (step e p)"
  by (auto simp: reindex_inv_def reindexed_step is_open_step reindex_requests_step)

lemma reindex_inv_run: "reindex_inv p \<Longrightarrow> reindex_inv (run evs p)"
  by (induction evs rule: rev_induct) (simp_all add: run_def reindex_inv_step)

lemma reindexed_run_mono: "reindexed p \<Longrightarrow> reindexed (run evs p)"
  by (induction evs rule: rev_induct) (simp_all add: run_def reindexed_step)

lemma reindexed_run_init: "reindexed (run evs (init m)) \<longleftrightarrow> Toggle \<in> set evs"
proof (induction evs rule: rev_induct)
  case Nil
  then show ?case by (simp add: run_def init_def)
next
  case (snoc e evs)
  have "reindex_inv (run evs (init m))"
    by (simp add: reindex_inv_run reindex_inv_init)
  then have "\<not> reindexed (run evs (init m)) \<Longrightarrow> \<not> is_open (run evs (init m))"
    by (auto simp: reindex_inv_def)
  with snoc show ?case
    by (auto simp: run_snoc reindexed_step)
qed

subsection \<open>The replacements of \<^verbatim>\<open>formatText\<close> in general\<close>

lemma replace_g_skip:
  "m (c # cs) = None \<Longrightarrow> replace_g m t (c # cs) = c # replace_g m t cs"
  by simp

lemma replace_g_hit:
  assumes "m s = Some (n, g)" and "0 < n" and "n \<le> length s"
  shows "replace_g m t s = t g @ replace_g m t (drop n s)"
proof (cases s)
  case Nil
  with assms show ?thesis by simp
next
  case (Cons c cs)
  with assms show ?thesis
    by (cases n) simp_all
qed

lemma replace_g_cases [case_names wf Nil skip hit]:
  assumes wf: "well_formed m"
    and base: "P []"
    and skip: "\<And>c cs. m (c # cs) = None \<Longrightarrow> P cs \<Longrightarrow> P (c # cs)"
    and hit: "\<And>s n g. m s = Some (n, g) \<Longrightarrow> 0 < n \<Longrightarrow> n \<le> length s \<Longrightarrow> P (drop n s) \<Longrightarrow> P s"
  shows "P s"
proof (induction s rule: length_induct)
  case (1 s)
  show ?case
  proof (cases "m s")
    case None
    show ?thesis
    proof (cases s)
      case Nil
      then show ?thesis by (simp add: base)
    next
      case (Cons c cs)
      with None 1 show ?thesis by (simp add: skip)
    qed
  next
    case (Some ng)
    obtain n g where ng: "ng = (n, g)" by (cases ng)
    with Some wf have n: "0 < n" "n \<le> length s"
      by (auto simp: well_formed_def)
    then have "length (drop n s) < length s" by simp
    with 1 have "P (drop n s)" by blast
    with Some ng n show ?thesis by (auto intro: hit)
  qed
qed

lemma star_item_SomeD:
  assumes "star_item s = Some (n, g)"
  shows "s = [0x2A, 0x20] @ g @ drop n s \<and> n = 2 + length g \<and> g \<noteq> [] \<and>
    (\<forall>x\<in>set g. \<not> is_line_terminator x) \<and>
    (drop n s = [] \<or> is_line_terminator (hd (drop n s)))"
proof -
  from assms obtain rest where s: "s = 0x2A # 0x20 # rest"
    by (auto simp: star_item_def split: list.splits if_splits)
  let ?P = "\<lambda>c. \<not> is_line_terminator c"
  from assms s have g: "g = takeWhile ?P rest" and n: "n = 2 + length g" and ne: "g \<noteq> []"
    by (auto simp: star_item_def Let_def split: if_splits)
  have d: "drop n s = dropWhile ?P rest"
    by (simp add: s n g dropWhile_eq_drop)
  have "rest = g @ dropWhile ?P rest"
    by (simp add: g)
  with s d have "s = [0x2A, 0x20] @ g @ drop n s" by simp
  moreover have "\<forall>x\<in>set g. ?P x"
    unfolding g by (auto dest: set_takeWhileD)
  moreover have "drop n s = [] \<or> is_line_terminator (hd (drop n s))"
    unfolding d using hd_dropWhile [of ?P rest] by auto
  ultimately show ?thesis using n ne by blast
qed

lemma list_item_SomeD:
  assumes "list_item s = Some (n, g)"
  shows "\<exists>pre. (pre = [0x2A, 0x20] \<or> pre = [LF, 0x2A, 0x20]) \<and>
    s = pre @ g @ drop n s \<and> n = length pre + length g \<and> g \<noteq> [] \<and>
    (\<forall>x\<in>set g. \<not> is_line_terminator x) \<and>
    (drop n s = [] \<or> is_line_terminator (hd (drop n s)))"
proof (cases "star_item s")
  case (Some ng)
  then have "list_item s = Some ng"
    by (auto simp: list_item_def star_item_def LF_def split: list.splits option.splits if_splits)
  with assms Some have "star_item s = Some (n, g)" by simp
  from star_item_SomeD [OF this] show ?thesis by auto
next
  case None
  with assms obtain cs k where s: "s = LF # cs" and k: "star_item cs = Some (k, g)" and n: "n = Suc k"
    by (auto simp: list_item_def split: list.splits option.splits if_splits)
  from star_item_SomeD [OF k] have "cs = [0x2A, 0x20] @ g @ drop k cs" and "k = 2 + length g"
    and "g \<noteq> []" and "\<forall>x\<in>set g. \<not> is_line_terminator x"
    and "drop k cs = [] \<or> is_line_terminator (hd (drop k cs))"
    by blast+
  with s n show ?thesis 
    by (intro exI [of _ "[LF, 0x2A, 0x20]"]) auto
qed

lemma well_formed_list_item: "well_formed list_item"
  unfolding well_formed_def
proof (intro allI impI)
  fix s n g
  assume "list_item s = Some (n, g)"
  from list_item_SomeD [OF this] obtain pre where "s = pre @ g @ drop n s" and "n = length pre + length g"
    and "(pre = [0x2A, 0x20] \<or> pre = [LF, 0x2A, 0x20])"
    by blast
  then show "0 < n \<and> n \<le> length s"
    by (metis add_gr_0 append_assoc length_append length_greater_0_conv list.distinct(1) nat_le_linear drop_all append_Nil2 le_add1)
qed


lemma answer_token_SomeD:
  assumes "answer_token s = Some (n, g)"
  shows "(g = js ''Answer:'' \<or> g = js ''Response:'') \<and> n = length g \<and> s = g @ drop n s"
  using assms
  by (auto simp: answer_token_def starts_with_def prefix_def js_def split: if_splits)

lemma answer_token_NoneD:
  assumes "answer_token s = None"
  shows "\<not> prefix (js ''Answer:'') s \<and> \<not> prefix (js ''Response:'') s"
  using assms by (auto simp: answer_token_def starts_with_def split: if_splits)

lemma well_formed_answer_token: "well_formed answer_token"
  unfolding well_formed_def
proof (intro allI impI)
  fix s n g
  assume "answer_token s = Some (n, g)"
  from answer_token_SomeD [OF this]
  have g: "g = js ''Answer:'' \<or> g = js ''Response:''" and n: "n = length g" and s: "s = g @ drop n s"
    by blast+
  from g n have "0 < n" by (auto simp: js_def)
  moreover from s have "length s = length g + length (drop n s)"
    by (metis length_append)
  with n have "n \<le> length s" by simp
  ultimately show "0 < n \<and> n \<le> length s" ..
qed

lemma newlines_SomeD:
  assumes "newlines s = Some (n, g)"
  shows "g = [] \<and> 2 \<le> n \<and> n \<le> length s \<and> take n s = replicate n LF"
proof -
  from assms have g: "g = []" and n: "n = length (takeWhile (\<lambda>c. c = LF) s)" and two: "2 \<le> n"
    by (auto simp: newlines_def Let_def split: if_splits)
  have "take n s = takeWhile (\<lambda>c. c = LF) s"
    unfolding n by (rule takeWhile_eq_take [symmetric])
  moreover have "\<forall>x\<in>set (takeWhile (\<lambda>c. c = LF) s). x = LF"
    by (auto dest: set_takeWhileD)
  ultimately have "take n s = replicate n LF"
    by (metis n replicate_length_same)
  moreover have "n \<le> length s"
    unfolding n by (rule length_takeWhile_le)
  ultimately show ?thesis using g two by simp
qed

lemma well_formed_newlines: "well_formed newlines"
  unfolding well_formed_def using newlines_SomeD by fastforce

lemma count_g_simps [simp]:
  "count_g [] = 0"
  "count_g (xs @ ys) = count_g xs + count_g ys"
  "count_g (c # cs) = (if c = 0x67 then 1 else 0) + count_g cs"
  by (simp_all add: count_g_def)

lemma count_g_list_item:
  "count_g (replace_g list_item (\<lambda>g. js ''<li>'' @ g @ js ''</li>'') s) = count_g s"
proof (induction s rule: replace_g_cases [of list_item])
  case wf
  show ?case by (rule well_formed_list_item)
next
  case Nil
  show ?case by (simp add: list_item_def star_item_def)
next
  case (skip c cs)
  then show ?case by simp
next
  case (hit s n g)
  from list_item_SomeD [OF hit(1)] obtain pre
    where pre: "pre = [0x2A, 0x20] \<or> pre = [LF, 0x2A, 0x20]" and s: "s = pre @ g @ drop n s"
    by blast
  from pre have "count_g pre = 0" by (auto simp: LF_def)
  with s have "count_g s = count_g g + count_g (drop n s)"
    by (metis count_g_simps(2) add_0)
  moreover have "count_g (js ''<li>'' @ g @ js ''</li>'') = count_g g"
    by (simp add: js_def)
  ultimately show ?case
    using hit by (simp add: replace_g_hit del: replace_g.simps)
qed

lemma count_g_newlines:
  "count_g (replace_g newlines (\<lambda>g. js ''</ul><br><ul>'') s) = count_g s"
proof (induction s rule: replace_g_cases [of newlines])
  case wf
  show ?case by (rule well_formed_newlines)
next
  case Nil
  show ?case by (simp add: newlines_def)
next
  case (skip c cs)
  then show ?case by simp
next
  case (hit s n g)
  from newlines_SomeD [OF hit(1)] have "take n s = replicate n LF" by simp
  then have "count_g (take n s) = 0"
    by (simp add: count_g_def LF_def)
  then have "count_g s = count_g (drop n s)"
    by (metis count_g_simps(2) append_take_drop_id add_0)
  moreover have "count_g (js ''</ul><br><ul>'') = 0"
    by (simp add: js_def)
  ultimately show ?case
    using hit by (simp add: replace_g_hit del: replace_g.simps)
qed

lemma count_g_answer_token_le:
  "count_g s \<le> count_g (replace_g answer_token (\<lambda>g. js ''<strong>'' @ g @ js ''</strong>'') s)"
proof (induction s rule: replace_g_cases [of answer_token])
  case wf
  show ?case by (rule well_formed_answer_token)
next
  case Nil
  show ?case by simp
next
  case (skip c cs)
  then show ?case by simp
next
  case (hit s n g)
  from answer_token_SomeD [OF hit(1)] have "s = g @ drop n s" by blast
  then have "count_g s = count_g g + count_g (drop n s)"
    by (metis count_g_simps(2))
  moreover have "count_g (js ''<strong>'' @ g @ js ''</strong>'') = count_g g + 2"
    by (simp add: js_def)
  ultimately show ?case
    using hit by (simp add: replace_g_hit del: replace_g.simps)
qed

lemma count_g_answer_token_less:
  assumes "sublist p s" and "p = js ''Answer:'' \<or> p = js ''Response:''"
  shows "count_g s < count_g (replace_g answer_token (\<lambda>g. js ''<strong>'' @ g @ js ''</strong>'') s)"
  using assms(1)
proof (induction s rule: replace_g_cases [of answer_token])
  case wf
  show ?case by (rule well_formed_answer_token)
next
  case Nil
  with assms(2) show ?case by (auto simp: js_def)
next
  case (skip c cs)
  from answer_token_NoneD [OF skip(1)] assms(2) have "\<not> prefix p (c # cs)" by auto
  with skip(3) have "sublist p cs"
    by (simp add: sublist_Cons_right)
  with skip show ?case by simp
next
  case (hit s n g)
  from answer_token_SomeD [OF hit(1)] have "s = g @ drop n s" by blast
  then have "count_g s = count_g g + count_g (drop n s)"
    by (metis count_g_simps(2))
  moreover have "count_g (js ''<strong>'' @ g @ js ''</strong>'') = count_g g + 2"
    by (simp add: js_def)
  moreover note count_g_answer_token_le [of "drop n s"]
  ultimately show ?case
    using hit(1,2,3) by (simp add: replace_g_hit del: replace_g.simps)
qed




lemma list_item_plain_head:
  assumes "x \<noteq> 0x2A" and "\<not> is_line_terminator x"
  shows "list_item (x # s) = None"
  using assms
  by (simp add: list_item_def star_item_def is_line_terminator_def LF_def split: list.splits)

lemma prefix_list_item:
  assumes "prefix p s" and "plain p"
  shows "prefix p (replace_g list_item t s)"
  using assms
proof (induction p arbitrary: s)
  case Nil
  show ?case by simp
next
  case (Cons x p)
  from Cons.prems(1) obtain s' where s: "s = x # s'" and p: "prefix p s'"
    by (cases s) auto
  from Cons.prems(2) have x: "x \<noteq> 0x2A" "\<not> is_line_terminator x" and "plain p"
    by (simp_all add: plain_def)
  with p Cons.IH have "prefix p (replace_g list_item t s')" by blast
  with x show ?case
    by (simp add: s list_item_plain_head)
qed


lemma sublist_list_item:
  assumes "sublist p s" and "plain p" and "p \<noteq> []"
  shows "sublist p (replace_g list_item (\<lambda>g. js ''<li>'' @ g @ js ''</li>'') s)"
  using assms(1)
proof (induction s rule: replace_g_cases [of list_item])
  case wf
  show ?case by (rule well_formed_list_item)
next
  case Nil
  with assms(3) show ?case by simp
next
  case (skip c cs)
  from skip(3) consider "prefix p (c # cs)" | "sublist p cs"
    by (auto simp: sublist_Cons_right)
  then show ?case
  proof cases
    case 1
    from prefix_list_item [OF this assms(2)] show ?thesis
      by (rule prefix_imp_sublist)
  next
    case 2
    with skip show ?thesis
      by (simp add: sublist_Cons_right)
  qed
next
  case (hit s n g)
  let ?rest = "drop n s"
  from list_item_SomeD [OF hit(1)] obtain pre
    where pre: "pre = [0x2A, 0x20] \<or> pre = [LF, 0x2A, 0x20]"
      and s: "s = pre @ g @ ?rest"
      and rest: "?rest = [] \<or> is_line_terminator (hd ?rest)"
    by blast
  have no_pre: "x \<notin> set pre" if "x \<in> set p" for x
  proof -
    from assms(2) that have "x \<noteq> 0x2A \<and> x \<noteq> 0x20 \<and> \<not> is_line_terminator x"
      unfolding plain_def by blast
    then have "x \<noteq> 0x2A" and "x \<noteq> 0x20" and "x \<noteq> LF"
      by (simp_all add: is_line_terminator_def LF_def)
    with pre show ?thesis by auto
  qed
  have no_suffix: "p1 = []" if "suffix p1 pre" and "set p1 \<subseteq> set p" for p1
  proof (rule ccontr)
    assume "p1 \<noteq> []"
    then have "last p1 \<in> set p1" by simp
    moreover from that(1) have "set p1 \<subseteq> set pre" by (rule set_mono_suffix)
    ultimately have "last p1 \<in> set pre" and "last p1 \<in> set p"
      using that(2) by blast+
    with no_pre show False by blast
  qed
  have no_prefix: "p2 = []" if "prefix p2 ?rest" and "set p2 \<subseteq> set p" for p2
  proof (rule ccontr)
    assume ne: "p2 \<noteq> []"
    from that(1) obtain zs where zs: "?rest = p2 @ zs" by (rule prefixE)
    from rest ne have "is_line_terminator (hd p2)"
      unfolding zs by simp
    moreover from ne that(2) have "hd p2 \<in> set p"
      using hd_in_set by blast
    ultimately show False
      using assms(2) unfolding plain_def by blast
  qed
  from hit(5) s [symmetric] have "sublist p (pre @ (g @ ?rest))" by simp
  then consider "sublist p pre" | "sublist p (g @ ?rest)"
    | p1 p2 where "p = p1 @ p2" "suffix p1 pre" "prefix p2 (g @ ?rest)"
    unfolding sublist_append [of p pre] by blast
  then have tail: "sublist p (g @ ?rest)"
  proof cases
    case 1
    then have "set p \<subseteq> set pre" by (rule set_mono_sublist)
    moreover from assms(3) have "hd p \<in> set p" by simp
    ultimately show ?thesis using no_pre by blast
  next
    case 2
    then show ?thesis .
  next
    case 3
    from 3(1) have "set p1 \<subseteq> set p" by simp
    with 3(2) have "p1 = []" by (rule no_suffix)
    with 3(1,3) show ?thesis by (simp add: prefix_imp_sublist)
  qed
  then consider "sublist p g" | "sublist p ?rest"
    | p1 p2 where "p = p1 @ p2" "suffix p1 g" "prefix p2 ?rest"
    unfolding sublist_append [of p g] by blast
  then have "sublist p g \<or> sublist p ?rest"
  proof cases
    case 3
    from 3(1) have "set p2 \<subseteq> set p" by simp
    with 3(3) have "p2 = []" by (rule no_prefix)
    with 3(1,2) show ?thesis by (simp add: suffix_imp_sublist)
  qed simp_all
  then have "sublist p (js ''<li>'' @ g @ js ''</li>'' @
      replace_g list_item (\<lambda>g. js ''<li>'' @ g @ js ''</li>'') ?rest)"
  proof
    assume "sublist p g"
    then obtain a b where "g = a @ p @ b"
      by (auto simp: sublist_def)
    then have "js ''<li>'' @ g @ js ''</li>'' @
        replace_g list_item (\<lambda>g. js ''<li>'' @ g @ js ''</li>'') ?rest =
      (js ''<li>'' @ a) @ p @ (b @ js ''</li>'' @
        replace_g list_item (\<lambda>g. js ''<li>'' @ g @ js ''</li>'') ?rest)"
      by simp
    then show ?thesis
      unfolding sublist_def by blast
  next
    assume "sublist p ?rest"
    with hit(4) obtain a b
      where "replace_g list_item (\<lambda>g. js ''<li>'' @ g @ js ''</li>'') ?rest = a @ p @ b"
      by (auto simp: sublist_def)
    then have "js ''<li>'' @ g @ js ''</li>'' @
        replace_g list_item (\<lambda>g. js ''<li>'' @ g @ js ''</li>'') ?rest =
      (js ''<li>'' @ g @ js ''</li>'' @ a) @ p @ b"
      by simp
    then show ?thesis
      unfolding sublist_def by blast
  qed
  with hit(1,2,3) show ?case
    by (simp add: replace_g_hit del: replace_g.simps)
qed


lemma plain_tokens: "plain (js ''Answer:'')" "plain (js ''Response:'')"
  by (simp_all add: plain_def js_def is_line_terminator_def)

lemma count_g_formatText:
  "count_g (formatText s) =
     count_g (replace_g answer_token (\<lambda>g. js ''<strong>'' @ g @ js ''</strong>'')
       (replace_g list_item (\<lambda>g. js ''<li>'' @ g @ js ''</li>'') s))"
proof -
  have "count_g (js ''<ul>'') = 0" and "count_g (js ''</ul>'') = 0"
    by (simp_all add: js_def)
  then show ?thesis
    by (simp add: formatText_def Let_def count_g_newlines)
qed

lemma formatText_token_changes:
  assumes "includes_str s (js ''Answer:'') \<or> includes_str s (js ''Response:'')"
  shows "formatText s \<noteq> s"
proof -
  from assms obtain p where p: "p = js ''Answer:'' \<or> p = js ''Response:''" and sub: "sublist p s"
    by (auto simp: includes_str_def)
  from p have "plain p"
    by (auto simp: plain_tokens)
  moreover from p have "p \<noteq> []"
    by (auto simp: js_def)
  ultimately have "sublist p (replace_g list_item (\<lambda>g. js ''<li>'' @ g @ js ''</li>'') s)"
    using sub by (intro sublist_list_item)
  from count_g_answer_token_less [OF this p]
  have "count_g s < count_g (formatText s)"
    by (simp add: count_g_formatText count_g_list_item)
  then show ?thesis by auto
qed

lemma formatText_item_head:
  assumes "\<not> is_line_terminator c"
  shows "\<exists>z. formatText (0x2A # 0x20 # c # rest) = 0x3C # z"
proof -
  let ?s = "0x2A # 0x20 # c # rest"
  let ?g = "takeWhile (\<lambda>c. \<not> is_line_terminator c) (c # rest)"
  from assms have "list_item ?s = Some (2 + length ?g, ?g)"
    by (simp add: list_item_def star_item_def LF_def)
  then obtain x where one: "replace_g list_item (\<lambda>g. js ''<li>'' @ g @ js ''</li>'') ?s = 0x3C # x"
    by (simp add: js_def)
  have "answer_token (0x3C # x) = None"
    by (simp add: answer_token_def starts_with_def js_def)
  then obtain y where two: "replace_g answer_token (\<lambda>g. js ''<strong>'' @ g @ js ''</strong>'') (0x3C # x) = 0x3C # y"
    by simp
  have "newlines (0x3C # y) = None"
    by (simp add: newlines_def LF_def)
  then obtain z where three: "replace_g newlines (\<lambda>g. js ''</ul><br><ul>'') (0x3C # y) = 0x3C # z"
    by simp
  show ?thesis
    unfolding formatText_def one two three by (simp add: js_def Let_def)
qed

subsection \<open>\<^verbatim>\<open>formatText\<close> on concrete texts\<close>

text \<open>
  C4. \<^verbatim>\<open>formatText\<close> applied to the two lines \<^verbatim>\<open>* a\<close> and \<^verbatim>\<open>* b\<close>, separated by
  one newline, returns one list container around the two items \<^verbatim>\<open>a\<close> and \<^verbatim>\<open>b\<close>.
\<close>

theorem formatText_two_items:
  "formatText (js ''* a\<newline>* b'') = js ''<ul><li>a</li><li>b</li></ul>''"
  by (simp add: format_defs)

text \<open>
  C2. Two list-item lines separated by one blank line, that is by a run of two newlines.
  The item pattern takes the second newline of the run with it, one newline is left, the
  boundary pattern finds no run of two, and the result is one list: the run has not
  become a boundary between two lists.
\<close>

theorem formatText_blank_line_between_items:
  "formatText (js ''* a\<newline>\<newline>* b'') = js ''<ul><li>a</li>\<newline><li>b</li></ul>''"
  by (simp add: format_defs)

text \<open>
  With one newline more the boundary is there, and a run of two newlines that no item
  follows is replaced as well, with nothing around it.
\<close>

lemma formatText_two_blank_lines_between_items:
  "formatText (js ''* a\<newline>\<newline>\<newline>* b'') =
     js ''<ul><li>a</li></ul><br><ul><li>b</li></ul>''"
  by (simp add: format_defs)

lemma formatText_blank_line_between_words:
  "formatText (js ''a\<newline>\<newline>b'') = js ''a</ul><br><ul>b''"
  by (simp add: format_defs)

subsection \<open>The CSRF token\<close>

text \<open>
  C3. On a page without the meta element, submitting \<^verbatim>\<open>hi\<close> calls \<^verbatim>\<open>fetch\<close> not at
  all: the user's message is followed at once by the error message. Opening the widget on
  the same page does send the reindex request, with the empty string as the token.
\<close>

theorem submit_without_csrf_meta:
  "requests (submit ((init None)\<lparr>input_value := js ''hi''\<rparr>)) = [] \<and>
   messages (submit ((init None)\<lparr>input_value := js ''hi''\<rparr>)) =
     [\<lparr>origin = User, innerHTML = js ''hi''\<rparr>,
      \<lparr>origin = Bot, innerHTML = js ''Error contacting assistant.''\<rparr>] \<and>
   requests (toggle (init None)) =
     [\<lparr>url = ''/assistant/reindex'', http_method = ''POST'',
       headers = [(''X-CSRFToken'', Some [])], credentials = ''same-origin'',
       body = NoBody\<rparr>]"
proof -
  have trimmed: "trim (js ''hi'') = js ''hi''"
    by (simp add: trim_def js_def is_white_space_def is_line_terminator_def)
  have html: "formatText (js ''hi'') = js ''hi''"
    by (simp add: format_defs)
  have "effects (submit ((init None)\<lparr>input_value := js ''hi''\<rparr>)) =
     [AppendChild \<lparr>origin = User, innerHTML = js ''hi''\<rparr>, ConsoleLog,
      AppendChild \<lparr>origin = Bot, innerHTML = js ''Error contacting assistant.''\<rparr>]"
    using effects_submit [of "(init None)\<lparr>input_value := js ''hi''\<rparr>"]
    by (simp add: trimmed html init_def)
  moreover have "effects (toggle (init None)) =
     [Fetch \<lparr>url = ''/assistant/reindex'', http_method = ''POST'',
       headers = [(''X-CSRFToken'', Some [])], credentials = ''same-origin'',
       body = NoBody\<rparr>]"
    by (simp add: toggle_def init_def triggerReindex_def getCsrf_def emit_def)
  ultimately show ?thesis
    by (simp add: requests_def messages_def)
qed

subsection \<open>Submitting\<close>

text \<open>
  C5. When the input holds white space only, or nothing, the submit handler changes
  nothing: no message is appended and \<^verbatim>\<open>fetch\<close> is not called.
\<close>

theorem submit_white_space_noop:
  assumes "\<forall>c\<in>set (input_value p). is_white_space c"
  shows "submit p = p \<and> messages (submit p) = messages p \<and> requests (submit p) = requests p"
  using assms by (simp add: submit_def trim_white_space)

theorem submit_white_space_noop_witness:
  "list_all is_white_space [0x20, 0x0A, 0x09, 0x3000] \<and>
   submit ((init None)\<lparr>input_value := [0x20, 0x0A, 0x09, 0x3000]\<rparr>) =
     (init None)\<lparr>input_value := [0x20, 0x0A, 0x09, 0x3000]\<rparr> \<and>
   messages (submit ((init None)\<lparr>input_value := [0x20, 0x0A, 0x09, 0x3000]\<rparr>)) = [] \<and>
   requests (submit ((init None)\<lparr>input_value := [0x20, 0x0A, 0x09, 0x3000]\<rparr>)) = []"
  using submit_white_space_noop [of "(init None)\<lparr>input_value := [0x20, 0x0A, 0x09, 0x3000]\<rparr>"]
  by (simp add: is_white_space_def is_line_terminator_def init_def messages_def requests_def)

text \<open>
  C6. When the trimmed input is not empty, the first thing the submit handler does to the
  outside is to append the user's message; the call of \<^verbatim>\<open>fetch\<close> comes behind it in
  the same run of the handler, so the message is in the list before the request is even
  issued, let alone settled. The handler appends this one user message, and the code that
  runs once the request has settled appends none.
\<close>

theorem submit_appends_user_message_first:
  assumes "trim (input_value p) \<noteq> []"
  shows "effects (submit p) =
           effects p @
             AppendChild \<lparr>origin = User, innerHTML = formatText (trim (input_value p))\<rparr> #
             (case csrf_meta p of
                None \<Rightarrow>
                  [ConsoleLog,
                   AppendChild
                     \<lparr>origin = Bot, innerHTML = js ''Error contacting assistant.''\<rparr>]
              | Some csrf \<Rightarrow>
                  [Fetch \<lparr>url = ''/assistant/chat'', http_method = ''POST'',
                     headers = [(''Content-Type'', Some (js ''application/json'')),
                                (''X-CSRFToken'', csrf)],
                     credentials = ''same-origin'',
                     body = JSON_message (trim (input_value p))\<rparr>]) \<and>
         filter (\<lambda>m. origin m = User) (messages (submit p)) =
           filter (\<lambda>m. origin m = User) (messages p) @
             [\<lparr>origin = User, innerHTML = formatText (trim (input_value p))\<rparr>] \<and>
         filter (\<lambda>m. origin m = User) (messages (chat_settled out (submit p))) =
           filter (\<lambda>m. origin m = User) (messages p) @
             [\<lparr>origin = User, innerHTML = formatText (trim (input_value p))\<rparr>]"
proof -
  note log = effects_submit [OF assms]
  have user: "filter (\<lambda>m. origin m = User) (messages (submit p)) =
      filter (\<lambda>m. origin m = User) (messages p) @
        [\<lparr>origin = User, innerHTML = formatText (trim (input_value p))\<rparr>]"
    by (cases "csrf_meta p") (simp_all add: messages_def log appended_append)
  from log user show ?thesis
    by (simp only: chat_settled_user_messages simp_thms)
qed

theorem submit_appends_user_message_first_witness:
  "trim (input_value ((init (Some (Some (js ''t''))))\<lparr>input_value := js '' hi ''\<rparr>)) \<noteq> [] \<and>
   effects (submit ((init (Some (Some (js ''t''))))\<lparr>input_value := js '' hi ''\<rparr>)) =
     [AppendChild \<lparr>origin = User, innerHTML = js ''hi''\<rparr>,
      Fetch \<lparr>url = ''/assistant/chat'', http_method = ''POST'',
        headers = [(''Content-Type'', Some (js ''application/json'')),
                   (''X-CSRFToken'', Some (js ''t''))],
        credentials = ''same-origin'', body = JSON_message (js ''hi'')\<rparr>] \<and>
   filter (\<lambda>m. origin m = User)
     (messages (chat_settled Rejected
       (submit ((init (Some (Some (js ''t''))))\<lparr>input_value := js '' hi ''\<rparr>)))) =
     [\<lparr>origin = User, innerHTML = js ''hi''\<rparr>]"
proof -
  have trimmed: "trim (js '' hi '') = js ''hi''"
    by (simp add: trim_def js_def is_white_space_def is_line_terminator_def)
  have html: "formatText (js ''hi'') = js ''hi''"
    by (simp add: format_defs)
  show ?thesis
    using submit_appends_user_message_first
      [of "(init (Some (Some (js ''t''))))\<lparr>input_value := js '' hi ''\<rparr>" Rejected]
    by (simp add: trimmed html init_def messages_def)
qed

subsection \<open>The reply\<close>

text \<open>
  C7. When the body of the reply parses to an object that has no \<^verbatim>\<open>answer\<close> field, the
  exchange ends with one bot message, whose markup is the literal
  \<^verbatim>\<open>Sorry, I had trouble answering.\<close>
\<close>

theorem missing_answer_renders_fallback:
  assumes "map_of kvs (js ''answer'') = None"
  shows "effects (chat_settled (Parsed (JObj kvs)) q) =
           effects q @
             [AppendChild
                \<lparr>origin = Bot, innerHTML = js ''Sorry, I had trouble answering.''\<rparr>]"
  using assms by (intro chat_settled_fallback [where a = None]) (simp_all add: get_answer_def)

theorem missing_answer_renders_fallback_witness:
  "map_of [(js ''error'', JStr (js ''no''))] (js ''answer'') = None \<and>
   effects (chat_settled (Parsed (JObj [(js ''error'', JStr (js ''no''))])) (init None)) =
     [AppendChild \<lparr>origin = Bot, innerHTML = js ''Sorry, I had trouble answering.''\<rparr>]"
  using missing_answer_renders_fallback [of "[(js ''error'', JStr (js ''no''))]" "init None"]
  by (simp add: js_def init_def)

text \<open>
  C9. When the object has an \<^verbatim>\<open>answer\<close> field whose value is falsy (\<^verbatim>\<open>null\<close>,
  \<^verbatim>\<open>false\<close>, zero or the empty string), the bot message is the same fallback and not
  the value of the field.
\<close>

theorem falsy_answer_renders_fallback:
  assumes "map_of kvs (js ''answer'') = Some v" and "\<not> truthy v"
  shows "effects (chat_settled (Parsed (JObj kvs)) q) =
           effects q @
             [AppendChild
                \<lparr>origin = Bot, innerHTML = js ''Sorry, I had trouble answering.''\<rparr>]"
  using assms
  by (intro chat_settled_fallback [where a = "Some v"]) (simp_all add: get_answer_def)

theorem falsy_answer_renders_fallback_witness:
  "map_of [(js ''answer'', JStr [])] (js ''answer'') = Some (JStr []) \<and>
   \<not> truthy (JStr []) \<and>
   effects (chat_settled (Parsed (JObj [(js ''answer'', JStr [])])) (init None)) =
     [AppendChild \<lparr>origin = Bot, innerHTML = js ''Sorry, I had trouble answering.''\<rparr>]"
  using falsy_answer_renders_fallback [of "[(js ''answer'', JStr [])]" "JStr []" "init None"]
  by (simp add: truthy_def init_def)

text \<open>
  C8. When the exchange fails, one bot message is rendered, the literal
  \<^verbatim>\<open>Error contacting assistant.\<close>, and \<^verbatim>\<open>fetch\<close> is not called again. The failures
  behind the \<^verbatim>\<open>await\<close>s are a rejected \<^verbatim>\<open>fetch\<close>, a body that is not JSON, and any
  exception raised while the parsed value is handled; the failure in front of them is the
  exception raised when the token is read on a page without the meta element.
\<close>

theorem failed_exchange_renders_error:
  "(out = Rejected \<or> out = NotJson \<or> (\<exists>e. chat_try out q = Inl e) \<longrightarrow>
      effects (chat_settled out q) =
        effects q @
          [ConsoleLog,
           AppendChild \<lparr>origin = Bot, innerHTML = js ''Error contacting assistant.''\<rparr>] \<and>
      filter (\<lambda>m. origin m = Bot) (messages (chat_settled out q)) =
        filter (\<lambda>m. origin m = Bot) (messages q) @
          [\<lparr>origin = Bot, innerHTML = js ''Error contacting assistant.''\<rparr>] \<and>
      requests (chat_settled out q) = requests q) \<and>
   (trim (input_value p) \<noteq> [] \<and> csrf_meta p = None \<longrightarrow>
      effects (submit p) =
        effects p @
          [AppendChild \<lparr>origin = User, innerHTML = formatText (trim (input_value p))\<rparr>,
           ConsoleLog,
           AppendChild \<lparr>origin = Bot, innerHTML = js ''Error contacting assistant.''\<rparr>] \<and>
      filter (\<lambda>m. origin m = Bot) (messages (submit p)) =
        filter (\<lambda>m. origin m = Bot) (messages p) @
          [\<lparr>origin = Bot, innerHTML = js ''Error contacting assistant.''\<rparr>] \<and>
      requests (submit p) = requests p)"
proof (intro conjI impI)
  assume "out = Rejected \<or> out = NotJson \<or> (\<exists>e. chat_try out q = Inl e)"
  then obtain e where "chat_try out q = Inl e"
    by (auto simp: chat_try_def)
  then have log: "effects (chat_settled out q) =
      effects q @
        [ConsoleLog,
         AppendChild \<lparr>origin = Bot, innerHTML = js ''Error contacting assistant.''\<rparr>]"
    by (rule chat_settled_raised)
  show "effects (chat_settled out q) =
      effects q @
        [ConsoleLog,
         AppendChild \<lparr>origin = Bot, innerHTML = js ''Error contacting assistant.''\<rparr>]"
    by (fact log)
  show "filter (\<lambda>m. origin m = Bot) (messages (chat_settled out q)) =
      filter (\<lambda>m. origin m = Bot) (messages q) @
        [\<lparr>origin = Bot, innerHTML = js ''Error contacting assistant.''\<rparr>]"
    by (simp add: messages_def log appended_append)
  show "requests (chat_settled out q) = requests q"
    by (simp add: requests_def log fetched_append)
next
  assume "trim (input_value p) \<noteq> [] \<and> csrf_meta p = None"
  then have log: "effects (submit p) =
      effects p @
        [AppendChild \<lparr>origin = User, innerHTML = formatText (trim (input_value p))\<rparr>,
         ConsoleLog,
         AppendChild \<lparr>origin = Bot, innerHTML = js ''Error contacting assistant.''\<rparr>]"
    by (simp add: effects_submit)
  show "effects (submit p) =
      effects p @
        [AppendChild \<lparr>origin = User, innerHTML = formatText (trim (input_value p))\<rparr>,
         ConsoleLog,
         AppendChild \<lparr>origin = Bot, innerHTML = js ''Error contacting assistant.''\<rparr>]"
    by (fact log)
  show "filter (\<lambda>m. origin m = Bot) (messages (submit p)) =
      filter (\<lambda>m. origin m = Bot) (messages p) @
        [\<lparr>origin = Bot, innerHTML = js ''Error contacting assistant.''\<rparr>]"
    by (simp add: messages_def log appended_append)
  show "requests (submit p) = requests p"
    by (simp add: requests_def log fetched_append)
qed

theorem failed_exchange_renders_error_witness:
  "chat_try (Parsed JNull) (init None) = Inl TypeError \<and>
   effects (chat_settled (Parsed JNull) (init None)) =
     [ConsoleLog,
      AppendChild \<lparr>origin = Bot, innerHTML = js ''Error contacting assistant.''\<rparr>] \<and>
   trim (input_value ((init None)\<lparr>input_value := js ''hi''\<rparr>)) \<noteq> [] \<and>
   csrf_meta ((init None)\<lparr>input_value := js ''hi''\<rparr>) = None \<and>
   effects (submit ((init None)\<lparr>input_value := js ''hi''\<rparr>)) =
     [AppendChild \<lparr>origin = User, innerHTML = js ''hi''\<rparr>,
      ConsoleLog,
      AppendChild \<lparr>origin = Bot, innerHTML = js ''Error contacting assistant.''\<rparr>]"
proof -
  have trimmed: "trim (js ''hi'') = js ''hi''"
    by (simp add: trim_def js_def is_white_space_def is_line_terminator_def)
  have html: "formatText (js ''hi'') = js ''hi''"
    by (simp add: format_defs)
  have raised: "chat_try (Parsed JNull) (init None) = Inl TypeError"
    by (simp add: chat_try_def get_answer_def)
  show ?thesis
    using failed_exchange_renders_error
      [of "Parsed JNull" "init None" "(init None)\<lparr>input_value := js ''hi''\<rparr>"]
    by (simp add: trimmed html raised)
qed

subsection \<open>The reindex request\<close>

text \<open>
  C1. In the life of a page, whatever the events, the reindex request is issued once at
  most, and once exactly when the toggle button has been clicked at all. The event that
  issues it is a click on the toggle button that opens a panel which has never been open
  before: the first transition from closed to open.
\<close>

theorem reindex_at_most_once:
  "length (reindex_requests (run evs (init m))) \<le> 1 \<and>
   length (reindex_requests (run evs (init m))) = (if Toggle \<in> set evs then 1 else 0) \<and>
   (\<forall>pre e post.
      evs = pre @ e # post \<and>
      reindex_requests (step e (run pre (init m))) \<noteq> reindex_requests (run pre (init m)) \<longrightarrow>
        e = Toggle \<and> \<not> is_open (run pre (init m)) \<and> is_open (step e (run pre (init m))) \<and>
        (\<forall>k\<le>length pre. \<not> is_open (run (take k pre) (init m))))"
proof (intro conjI allI impI)
  have inv: "reindex_inv (run evs (init m))"
    by (simp add: reindex_inv_run reindex_inv_init)
  then show "length (reindex_requests (run evs (init m))) \<le> 1"
    by (simp add: reindex_inv_def)
  from inv show "length (reindex_requests (run evs (init m))) = (if Toggle \<in> set evs then 1 else 0)"
    by (simp add: reindex_inv_def reindexed_run_init)
next
  fix pre e post
  assume *: "evs = pre @ e # post \<and>
      reindex_requests (step e (run pre (init m))) \<noteq> reindex_requests (run pre (init m))"
  then have first: "e = Toggle \<and> \<not> is_open (run pre (init m)) \<and> \<not> reindexed (run pre (init m))"
    by (auto simp: reindex_requests_step split: if_splits)
  then show "e = Toggle" and "\<not> is_open (run pre (init m))"
    by simp_all
  from first show "is_open (step e (run pre (init m)))"
    by (subst is_open_step) simp
  fix k
  assume "k \<le> length pre"
  show "\<not> is_open (run (take k pre) (init m))"
  proof
    assume opened: "is_open (run (take k pre) (init m))"
    have "reindex_inv (run (take k pre) (init m))"
      by (simp add: reindex_inv_run reindex_inv_init)
    with opened have "reindexed (run (take k pre) (init m))"
      by (simp add: reindex_inv_def)
    then have "reindexed (run (drop k pre) (run (take k pre) (init m)))"
      by (rule reindexed_run_mono)
    then have "reindexed (run pre (init m))"
      by (simp add: run_append [symmetric])
    with first show False by simp
  qed
qed

theorem reindex_at_most_once_witness:
  "length (reindex_requests (run [Toggle, Close, Toggle, Close, Toggle] (init None))) = 1 \<and>
   [Toggle, Close, Toggle, Close, Toggle] = [] @ Toggle # [Close, Toggle, Close, Toggle] \<and>
   reindex_requests (step Toggle (run [] (init None))) \<noteq> reindex_requests (run [] (init None)) \<and>
   \<not> is_open (run [] (init None)) \<and> is_open (step Toggle (run [] (init None)))"
  using reindex_at_most_once [of "[Toggle, Close, Toggle, Close, Toggle]" None]
  by (simp add: run_def init_def reindex_requests_def requests_def toggle_def close_def
      triggerReindex_def emit_def getCsrf_def is_reindex_def Let_def)

subsection \<open>The user's own text\<close>

text \<open>
  C10. The user's message goes through \<^verbatim>\<open>formatText\<close> and into \<^verbatim>\<open>innerHTML\<close> as a
  bot message does. A text that begins with an asterisk and a space is not always changed
  by this: when the code unit behind the space is a line terminator, the item pattern does
  not match. Here the text is asterisk, space, LINE SEPARATOR, \<^verbatim>\<open>x\<close>, which
  \<^verbatim>\<open>trim\<close> leaves as it is, and the message holds it verbatim.
\<close>

theorem user_item_text_rendered_verbatim:
  "starts_with [0x2A, 0x20, 0x2028, 0x78] (js ''* '') \<and>
   trim [0x2A, 0x20, 0x2028, 0x78] = [0x2A, 0x20, 0x2028, 0x78] \<and>
   messages (submit ((init (Some (Some [])))\<lparr>input_value := [0x2A, 0x20, 0x2028, 0x78]\<rparr>)) =
     [\<lparr>origin = User, innerHTML = [0x2A, 0x20, 0x2028, 0x78]\<rparr>]"
proof -
  let ?t = "[0x2A, 0x20, 0x2028, 0x78] :: jsstring"
  have trimmed: "trim ?t = ?t"
    by (simp add: trim_def is_white_space_def is_line_terminator_def)
  have html: "formatText ?t = ?t"
    by (simp add: format_defs)
  have "trim (input_value ((init (Some (Some [])))\<lparr>input_value := ?t\<rparr>)) \<noteq> []"
    by (simp add: trimmed)
  from effects_submit [OF this]
  have "messages (submit ((init (Some (Some [])))\<lparr>input_value := ?t\<rparr>)) =
      [\<lparr>origin = User, innerHTML = ?t\<rparr>]"
    by (simp add: trimmed html messages_def)
  moreover have "starts_with ?t (js ''* '')"
    by (simp add: starts_with_def js_def)
  ultimately show ?thesis
    using trimmed by simp
qed

text \<open>
  C10, as the code has it. The message appended for the user holds \<^verbatim>\<open>formatText\<close> of the
  trimmed input, and \<^verbatim>\<open>appendMessage\<close> treats both origins alike. The text is changed
  by this whenever it begins with an asterisk, a space and a code unit that is no line
  terminator, and whenever it contains \<^verbatim>\<open>Answer:\<close> or \<^verbatim>\<open>Response:\<close>.
\<close>

theorem user_message_goes_through_formatText:
  assumes "trim (input_value p) \<noteq> []"
  shows "(\<exists>rest. messages (submit p) =
            messages p @
              \<lparr>origin = User, innerHTML = formatText (trim (input_value p))\<rparr> # rest) \<and>
         messages (appendMessage s User q) =
           messages q @ [\<lparr>origin = User, innerHTML = formatText s\<rparr>] \<and>
         messages (appendMessage s Bot q) =
           messages q @ [\<lparr>origin = Bot, innerHTML = formatText s\<rparr>] \<and>
         ((\<exists>c rest. trim (input_value p) = 0x2A # 0x20 # c # rest \<and> \<not> is_line_terminator c) \<or>
          includes_str (trim (input_value p)) (js ''Answer:'') \<or>
          includes_str (trim (input_value p)) (js ''Response:'') \<longrightarrow>
            formatText (trim (input_value p)) \<noteq> trim (input_value p))"
proof (intro conjI impI)
  show "\<exists>rest. messages (submit p) =
      messages p @ \<lparr>origin = User, innerHTML = formatText (trim (input_value p))\<rparr> # rest"
    by (simp add: messages_def effects_submit [OF assms] appended_append)
  show "messages (appendMessage s User q) =
      messages q @ [\<lparr>origin = User, innerHTML = formatText s\<rparr>]"
    by (simp add: messages_def effects_appendMessage appended_append)
  show "messages (appendMessage s Bot q) =
      messages q @ [\<lparr>origin = Bot, innerHTML = formatText s\<rparr>]"
    by (simp add: messages_def effects_appendMessage appended_append)
next
  let ?t = "trim (input_value p)"
  assume "(\<exists>c rest. ?t = 0x2A # 0x20 # c # rest \<and> \<not> is_line_terminator c) \<or>
    includes_str ?t (js ''Answer:'') \<or> includes_str ?t (js ''Response:'')"
  then consider c rest where "?t = 0x2A # 0x20 # c # rest" "\<not> is_line_terminator c"
    | "includes_str ?t (js ''Answer:'') \<or> includes_str ?t (js ''Response:'')"
    by blast
  then show "formatText ?t \<noteq> ?t"
  proof cases
    case 1
    from formatText_item_head [OF 1(2), of rest] obtain z
      where "formatText (0x2A # 0x20 # c # rest) = 0x3C # z" ..
    then show ?thesis
      unfolding 1(1) by simp
  next
    case 2
    then show ?thesis by (rule formatText_token_changes)
  qed
qed

theorem user_message_goes_through_formatText_witness:
  "trim (input_value ((init None)\<lparr>input_value := js ''* Answer: a''\<rparr>)) \<noteq> [] \<and>
   trim (input_value ((init None)\<lparr>input_value := js ''* Answer: a''\<rparr>)) =
     0x2A # 0x20 # 0x41 # js ''nswer: a'' \<and>
   \<not> is_line_terminator 0x41 \<and>
   includes_str (trim (input_value ((init None)\<lparr>input_value := js ''* Answer: a''\<rparr>)))
     (js ''Answer:'') \<and>
   formatText (trim (input_value ((init None)\<lparr>input_value := js ''* Answer: a''\<rparr>))) \<noteq>
     trim (input_value ((init None)\<lparr>input_value := js ''* Answer: a''\<rparr>)) \<and>
   (\<exists>rest. messages (submit ((init None)\<lparr>input_value := js ''* Answer: a''\<rparr>)) =
      \<lparr>origin = User, innerHTML = js ''<ul><li><strong>Answer:</strong> a</li></ul>''\<rparr> #
      rest)"
proof -
  let ?t = "js ''* Answer: a''"
  let ?p = "(init None)\<lparr>input_value := ?t\<rparr>"
  have trimmed: "trim ?t = ?t"
    by (simp add: trim_def js_def is_white_space_def is_line_terminator_def)
  have html: "formatText (trim (input_value ?p)) =
      js ''<ul><li><strong>Answer:</strong> a</li></ul>''"
    by (simp add: trimmed) (simp add: format_defs)
  have filled: "trim (input_value ?p) \<noteq> []"
    by (simp add: trimmed)
  have shape: "trim (input_value ?p) = 0x2A # 0x20 # 0x41 # js ''nswer: a''"
    by (simp add: trimmed) (simp add: js_def)
  have letter: "\<not> is_line_terminator 0x41"
    by (simp add: is_line_terminator_def)
  have token: "includes_str (trim (input_value ?p)) (js ''Answer:'')"
    by (simp add: trimmed) (simp add: includes_str_def js_def sublist_code)
  note fact = user_message_goes_through_formatText [OF filled]
  from fact token have changed: "formatText (trim (input_value ?p)) \<noteq> trim (input_value ?p)"
    by blast
  from fact obtain rest where "messages (submit ?p) =
      messages ?p @ \<lparr>origin = User, innerHTML = formatText (trim (input_value ?p))\<rparr> # rest"
    by blast
  then have "messages (submit ?p) =
      \<lparr>origin = User, innerHTML = js ''<ul><li><strong>Answer:</strong> a</li></ul>''\<rparr> # rest"
    unfolding html by (simp add: messages_def)
  then have shown: "\<exists>rest. messages (submit ?p) =
      \<lparr>origin = User, innerHTML = js ''<ul><li><strong>Answer:</strong> a</li></ul>''\<rparr> # rest"
    ..
  from filled shape letter token changed shown show ?thesis
    by (intro conjI)
qed

end
